theory Spec2Isabelle
  imports Main "HOL-Library.Sublist"
begin

section \<open>The fake agent of \<^verbatim>\<open>backend/internal/agent/fake/fake_agent.py\<close>\<close>

text \<open>
  The program writes one JSON object per line to standard output: an init record, and for
  every non-empty line read from standard input two streaming deltas, an assistant record
  and a result record. The embedding keeps the JSON objects as values (a dictionary is an
  association list in the order of the source's literal) and records every effect of the
  program, in order, in a trace: a line handed over by the iterator of \<^verbatim>\<open>sys.stdin\<close>,
  a call of \<^verbatim>\<open>emit\<close> (one line written and flushed), a call of \<^verbatim>\<open>time.sleep\<close>.
\<close>

subsection \<open>Values\<close>

text \<open>A float literal of the source, kept as written: \<open>Decimal m e\<close> is \<open>m / 10^e\<close>,
  so \<^verbatim>\<open>0.01\<close> is \<open>Decimal 1 2\<close> and \<^verbatim>\<open>0.05\<close> is \<open>Decimal 5 2\<close>.\<close>

datatype decimal = Decimal int nat

datatype json =
    JStr string
  | JInt int
  | JFloat decimal
  | JList "json list"
  | JObj "(string \<times> json) list"

datatype effect =
    Next string      \<comment> \<open>\<^verbatim>\<open>for line in sys.stdin\<close> hands over one line\<close>
  | Emit json        \<comment> \<open>\<^verbatim>\<open>emit(obj)\<close>: one line written to stdout, flushed\<close>
  | Sleep decimal    \<comment> \<open>\<^verbatim>\<open>time.sleep(seconds)\<close>\<close>

text \<open>The state of \<^verbatim>\<open>main\<close>: its local counter and the effects so far.\<close>

record session =
  turns :: int
  io :: "effect list"

abbreviation LF :: char where
  "LF \<equiv> CHR 0x0A"

abbreviation SPACE :: char where
  "SPACE \<equiv> CHR 0x20"

subsection \<open>The string operations of Python the program calls\<close>

text \<open>\<^verbatim>\<open>s.rstrip(chars)\<close>: every trailing character that occurs in \<open>chars\<close> is removed.\<close>

definition rstrip :: "string \<Rightarrow> string \<Rightarrow> string" where
  "rstrip s chars = rev (dropWhile (\<lambda>c. c \<in> set chars) (rev s))"

text \<open>\<^verbatim>\<open>s.find(sub, start)\<close> for \<open>0 \<le> start\<close>: the lowest index at or after \<open>start\<close>
  where \<open>sub\<close> occurs, or \<open>-1\<close>. \<open>find_from sub s i\<close> scans a suffix \<open>s\<close> that starts
  at index \<open>i\<close> of the whole string.\<close>

fun find_from :: "string \<Rightarrow> string \<Rightarrow> nat \<Rightarrow> int" where
  "find_from sub [] i = (if sub = [] then int i else - 1)"
| "find_from sub (c # cs) i =
     (if prefix sub (c # cs) then int i else find_from sub cs (Suc i))"

definition str_find :: "string \<Rightarrow> string \<Rightarrow> nat \<Rightarrow> int" where
  "str_find s sub start =
     (if length s < start then - 1 else find_from sub (drop start s) start)"

text \<open>Slices \<^verbatim>\<open>s[:e]\<close> and \<^verbatim>\<open>s[b:]\<close>: a negative bound counts from the end, and a
  bound outside the string is clipped.\<close>

definition slice_bound :: "string \<Rightarrow> int \<Rightarrow> nat" where
  "slice_bound s i = (if i < 0 then nat (int (length s) + i) else nat i)"

definition slice_to :: "string \<Rightarrow> int \<Rightarrow> string" where
  "slice_to s e = take (slice_bound s e) s"

definition slice_from :: "string \<Rightarrow> int \<Rightarrow> string" where
  "slice_from s b = drop (slice_bound s b) s"

subsection \<open>The program\<close>

definition JOKES :: "string list" where
  "JOKES =
    [''Why do programmers prefer dark mode? Because light attracts bugs.'',
     ''A SQL query walks into a bar, sees two tables, and asks: Can I JOIN you?'',
     ''Why do Java developers wear glasses? Because they can not C#.'',
     ''How many programmers does it take to change a light bulb? None, that is a hardware problem.'',
     ''There are only 10 types of people: those who understand binary and those who do not.'',
     ''A programmer puts two glasses on his bedside table before going to sleep.''
       @ '' A full one, in case he gets thirsty, and an empty one, in case he does not.'']"

definition emit :: "json \<Rightarrow> session \<Rightarrow> session" where
  "emit obj s = s\<lparr>io := io s @ [Emit obj]\<rparr>"

definition sleep :: "decimal \<Rightarrow> session \<Rightarrow> session" where
  "sleep d s = s\<lparr>io := io s @ [Sleep d]\<rparr>"

text \<open>The four dictionary literals of \<^verbatim>\<open>main\<close>.\<close>

definition init_event :: json where
  "init_event = JObj
     [(''type'', JStr ''system''),
      (''subtype'', JStr ''init''),
      (''session_id'', JStr ''test-session''),
      (''cwd'', JStr ''/workspace''),
      (''model'', JStr ''fake-model''),
      (''claude_code_version'', JStr ''0.0.0-test'')]"

definition delta_event :: "string \<Rightarrow> json" where
  "delta_event part = JObj
     [(''type'', JStr ''stream_event''),
      (''event'', JObj
         [(''type'', JStr ''content_block_delta''),
          (''index'', JInt 0),
          (''delta'', JObj [(''type'', JStr ''text_delta''), (''text'', JStr part)])])]"

definition assistant_event :: "string \<Rightarrow> json" where
  "assistant_event joke = JObj
     [(''type'', JStr ''assistant''),
      (''message'', JObj
         [(''role'', JStr ''assistant''),
          (''content'', JList [JObj [(''type'', JStr ''text''), (''text'', JStr joke)]])])]"

definition result_event :: "string \<Rightarrow> int \<Rightarrow> json" where
  "result_event joke n = JObj
     [(''type'', JStr ''result''),
      (''subtype'', JStr ''success''),
      (''result'', JStr joke),
      (''num_turns'', JInt n),
      (''total_cost_usd'', JFloat (Decimal 1 2)),
      (''duration_ms'', JInt 500)]"

text \<open>Lines 49 to 55: the two parts of a joke.\<close>

definition split_joke :: "string \<Rightarrow> string \<times> string" where
  "split_joke joke =
     (let mid = int (length joke) div 2;
          sp = str_find joke '' '' (nat mid);
          sp = (if sp = - 1 then mid else sp);
          part1 = slice_to joke (sp + 1);
          part2 = slice_from joke (sp + 1)
      in (part1, part2))"

text \<open>Line 45: \<^verbatim>\<open>JOKES[turns % len(JOKES)]\<close>. \<^verbatim>\<open>JOKES\<close> has six entries, so
  the modulus is not zero and the index, which is not negative, is in range.\<close>

definition select_joke :: "int \<Rightarrow> string" where
  "select_joke n = JOKES ! nat (n mod int (length JOKES))"

text \<open>Lines 45 to 96: the body of the loop for a line that is not empty.\<close>

definition turn :: "session \<Rightarrow> session" where
  "turn s =
     (let joke = select_joke (turns s);
          s = s\<lparr>turns := turns s + 1\<rparr>;
          (part1, part2) = split_joke joke;
          s = emit (delta_event part1) s;
          s = sleep (Decimal 5 2) s;
          s = emit (delta_event part2) s;
          s = emit (assistant_event joke) s
      in emit (result_event joke (turns s)) s)"

text \<open>Lines 41 to 44: one iteration of the loop, for the line \<open>raw\<close> the iterator hands
  over (with its line terminator).\<close>

definition step :: "string \<Rightarrow> session \<Rightarrow> session" where
  "step raw s =
     (let s = s\<lparr>io := io s @ [Next raw]\<rparr>;
          line = rstrip raw ''\<newline>''
      in if line = [] then s else turn s)"

fun loop :: "string list \<Rightarrow> session \<Rightarrow> session" where
  "loop [] s = s"
| "loop (raw # rest) s = loop rest (step raw s)"

text \<open>\<^verbatim>\<open>main\<close>, run on the lines standard input holds; the loop ends when they are
  used up. (\<^verbatim>\<open>turns = 0\<close> follows the first \<^verbatim>\<open>emit\<close> in the source; \<^verbatim>\<open>emit\<close>
  does not read it.)\<close>

definition main :: "string list \<Rightarrow> session" where
  "main lines = loop lines (emit init_event \<lparr>turns = 0, io = []\<rparr>)"

subsection \<open>Reading the output\<close>

text \<open>The records written to standard output, one per line, in order.\<close>

fun stdout :: "effect list \<Rightarrow> json list" where
  "stdout [] = []"
| "stdout (Emit obj # es) = obj # stdout es"
| "stdout (Next raw # es) = stdout es"
| "stdout (Sleep d # es) = stdout es"

text \<open>The lines the iterator handed over, in order.\<close>

fun reads :: "effect list \<Rightarrow> string list" where
  "reads [] = []"
| "reads (Next raw # es) = raw # reads es"
| "reads (Emit obj # es) = reads es"
| "reads (Sleep d # es) = reads es"

text \<open>A line is a request when something is left of it after \<^verbatim>\<open>rstrip("\n")\<close>.\<close>

definition is_request :: "string \<Rightarrow> bool" where
  "is_request raw = (rstrip raw ''\<newline>'' \<noteq> [])"

definition requests :: "string list \<Rightarrow> string list" where
  "requests lines = filter is_request lines"

fun field :: "string \<Rightarrow> json \<Rightarrow> json option" where
  "field k (JObj kvs) = map_of kvs k"
| "field k _ = None"

fun path :: "string list \<Rightarrow> json \<Rightarrow> json option" where
  "path [] j = Some j"
| "path (k # ks) j = (case field k j of None \<Rightarrow> None | Some v \<Rightarrow> path ks v)"

fun as_str :: "json option \<Rightarrow> string option" where
  "as_str (Some (JStr t)) = Some t"
| "as_str _ = None"

fun as_int :: "json option \<Rightarrow> int option" where
  "as_int (Some (JInt n)) = Some n"
| "as_int _ = None"

text \<open>The four kinds of record of the protocol, told apart by their markers.\<close>

datatype kind = Init | Delta | Assistant | Result | Other

definition is_init :: "json \<Rightarrow> bool" where
  "is_init j = (field ''type'' j = Some (JStr ''system'') \<and> field ''subtype'' j = Some (JStr ''init''))"

definition is_delta :: "json \<Rightarrow> bool" where
  "is_delta j = (field ''type'' j = Some (JStr ''stream_event'')
     \<and> path [''event'', ''type''] j = Some (JStr ''content_block_delta'')
     \<and> path [''event'', ''delta'', ''type''] j = Some (JStr ''text_delta''))"

definition is_assistant :: "json \<Rightarrow> bool" where
  "is_assistant j = (field ''type'' j = Some (JStr ''assistant''))"

definition is_result :: "json \<Rightarrow> bool" where
  "is_result j = (field ''type'' j = Some (JStr ''result''))"

definition kind_of :: "json \<Rightarrow> kind" where
  "kind_of j =
     (if is_init j then Init
      else if is_delta j then Delta
      else if is_assistant j then Assistant
      else if is_result j then Result
      else Other)"

definition delta_text :: "json \<Rightarrow> string option" where
  "delta_text j = as_str (path [''event'', ''delta'', ''text''] j)"

definition assistant_text :: "json \<Rightarrow> string option" where
  "assistant_text j =
     (case path [''message'', ''content''] j of
        Some (JList [block]) \<Rightarrow> as_str (field ''text'' block)
      | _ \<Rightarrow> None)"

definition result_text :: "json \<Rightarrow> string option" where
  "result_text j = as_str (field ''result'' j)"

definition num_turns :: "json \<Rightarrow> int option" where
  "num_turns j = as_int (field ''num_turns'' j)"

subsection \<open>Auxiliary notions for the proofs\<close>

text \<open>The index \<^verbatim>\<open>sp\<close> of lines 51 to 53, as a natural number: the first space at or
  after the midpoint, or the midpoint when there is none.\<close>

definition split_index :: "string \<Rightarrow> nat" where
  "split_index s =
     (if SPACE \<in> set (drop (length s div 2) s)
      then length s div 2 + length (takeWhile (\<lambda>c. c \<noteq> SPACE) (drop (length s div 2) s))
      else length s div 2)"

text \<open>The four records of the turn that starts with the counter at \<open>n\<close>.\<close>

definition records_of_turn :: "int \<Rightarrow> json list" where
  "records_of_turn n =
     [delta_event (fst (split_joke (select_joke n))),
      delta_event (snd (split_joke (select_joke n))),
      assistant_event (select_joke n),
      result_event (select_joke n) (n + 1)]"

subsection \<open>The split as the specification words it\<close>

text \<open>The specification speaks of whitespace, and of a split exactly at the midpoint when
  no whitespace follows: the first part ends with the first whitespace character at or after
  the midpoint, and without one it is the characters before the midpoint. This definition
  follows those words, for comparison with \<open>split_joke\<close>; the program does not use it.\<close>

definition is_whitespace :: "char \<Rightarrow> bool" where
  "is_whitespace c = (c \<in> set [CHR 0x20, CHR 0x09, CHR 0x0A, CHR 0x0B, CHR 0x0C, CHR 0x0D])"

definition spec_split :: "string \<Rightarrow> string \<times> string" where
  "spec_split s =
     (let mid = length s div 2
      in case filter (\<lambda>i. is_whitespace (s ! i)) [mid..<length s] of
           [] \<Rightarrow> (take mid s, drop mid s)
         | i # _ \<Rightarrow> (take (Suc i) s, drop (Suc i) s))"

section \<open>Facts about the string operations\<close>

lemma find_from_space:
  "find_from '' '' cs i =
     (if SPACE \<in> set cs then int (i + length (takeWhile (\<lambda>c. c \<noteq> SPACE) cs)) else - 1)"
  by (induction cs arbitrary: i) simp_all

lemma str_find_space:
  "m \<le> length s \<Longrightarrow> str_find s '' '' m =
     (if SPACE \<in> set (drop m s)
      then int (m + length (takeWhile (\<lambda>c. c \<noteq> SPACE) (drop m s))) else - 1)"
  by (simp add: str_find_def find_from_space)

lemma takeWhile_stops:
  "x \<in> set xs \<Longrightarrow> \<not> P x \<Longrightarrow> length (takeWhile P xs) < length xs"
  by (induction xs) auto

lemma split_joke_index:
  "split_joke s = (take (Suc (split_index s)) s, drop (Suc (split_index s)) s)"
proof -
  let ?m = "length s div 2"
  have m: "int (length s) div 2 = int ?m" by (simp add: zdiv_int)
  have le: "?m \<le> length s" by simp
  show ?thesis
    unfolding split_joke_def Let_def m nat_int str_find_space [OF le] split_index_def
    by (simp add: slice_to_def slice_from_def slice_bound_def nat_add_distrib)
qed

lemma split_joke_concat: "fst (split_joke s) @ snd (split_joke s) = s"
  by (simp add: split_joke_index)

lemma in_set_drop_nth:
  "x \<in> set (drop m xs) \<longleftrightarrow> (\<exists>j. m \<le> j \<and> j < length xs \<and> xs ! j = x)"
proof
  assume "x \<in> set (drop m xs)"
  then obtain i where i: "i < length (drop m xs)" "drop m xs ! i = x"
    by (auto simp: in_set_conv_nth)
  then have "m \<le> m + i \<and> m + i < length xs \<and> xs ! (m + i) = x" by auto
  then show "\<exists>j. m \<le> j \<and> j < length xs \<and> xs ! j = x" by blast
next
  assume "\<exists>j. m \<le> j \<and> j < length xs \<and> xs ! j = x"
  then obtain j where j: "m \<le> j" "j < length xs" "xs ! j = x" by blast
  then have "j - m < length (drop m xs)" "drop m xs ! (j - m) = x" by auto
  then show "x \<in> set (drop m xs)" by (metis nth_mem)
qed

lemma split_index_first_space:
  assumes "length s div 2 \<le> i" "i < length s" "s ! i = SPACE"
    and first: "\<And>j. length s div 2 \<le> j \<Longrightarrow> j < i \<Longrightarrow> s ! j \<noteq> SPACE"
  shows "split_index s = i"
proof -
  let ?m = "length s div 2"
  let ?d = "drop ?m s"
  have mem: "SPACE \<in> set ?d"
    using assms(1-3) by (auto simp: in_set_drop_nth)
  have "takeWhile (\<lambda>c. c \<noteq> SPACE) ?d = take (i - ?m) ?d"
  proof (rule takeWhile_eq_take_P_nth)
    fix k assume "k < i - ?m" "k < length ?d"
    then show "?d ! k \<noteq> SPACE" using first [of "?m + k"] by simp
  next
    show "\<not> ?d ! (i - ?m) \<noteq> SPACE" using assms(1-3) by simp
  qed
  then have "length (takeWhile (\<lambda>c. c \<noteq> SPACE) ?d) = i - ?m"
    using assms(1,2) by simp
  then show ?thesis using mem assms(1) by (simp add: split_index_def)
qed

lemma split_index_no_space:
  assumes "\<And>j. length s div 2 \<le> j \<Longrightarrow> j < length s \<Longrightarrow> s ! j \<noteq> SPACE"
  shows "split_index s = length s div 2"
proof -
  have "SPACE \<notin> set (drop (length s div 2) s)"
    using assms by (auto simp: in_set_drop_nth)
  then show ?thesis by (simp add: split_index_def)
qed

lemma rstrip_empty_iff: "rstrip s ''\<newline>'' = [] \<longleftrightarrow> set s \<subseteq> {LF}"
  by (auto simp: rstrip_def dropWhile_eq_Nil_conv)

lemma is_request_iff: "is_request raw \<longleftrightarrow> (\<exists>c \<in> set raw. c \<noteq> LF)"
  by (auto simp: is_request_def rstrip_empty_iff)

section \<open>Facts about the run\<close>

lemma loop_append: "loop (xs @ ys) s = loop ys (loop xs s)"
  by (induction xs arbitrary: s) simp_all

lemma stdout_append: "stdout (xs @ ys) = stdout xs @ stdout ys"
  by (induction xs rule: stdout.induct) simp_all

lemma reads_append: "reads (xs @ ys) = reads xs @ reads ys"
  by (induction xs rule: reads.induct) simp_all

lemma turn_io:
  "io (turn s) = io s @
     [Emit (delta_event (fst (split_joke (select_joke (turns s))))),
      Sleep (Decimal 5 2),
      Emit (delta_event (snd (split_joke (select_joke (turns s))))),
      Emit (assistant_event (select_joke (turns s))),
      Emit (result_event (select_joke (turns s)) (turns s + 1))]"
  by (simp add: turn_def emit_def sleep_def Let_def split: prod.split)

lemma turn_turns: "turns (turn s) = turns s + 1"
  by (simp add: turn_def emit_def sleep_def Let_def split: prod.split)

lemma step_blank:
  "\<not> is_request raw \<Longrightarrow> step raw s = s\<lparr>io := io s @ [Next raw]\<rparr>"
  by (simp add: step_def is_request_def)

lemma step_request:
  "is_request raw \<Longrightarrow> step raw s = turn (s\<lparr>io := io s @ [Next raw]\<rparr>)"
  by (simp add: step_def is_request_def)

lemma main_snoc: "main (ls @ [l]) = step l (main ls)"
  by (simp add: main_def loop_append)

lemma main_Nil: "main [] = \<lparr>turns = 0, io = [Emit init_event]\<rparr>"
  by (simp add: main_def emit_def)

lemma turns_step: "turns (step l s) = (if is_request l then turns s + 1 else turns s)"
  by (simp add: step_blank step_request turn_turns)

lemma io_step:
  "io (step l s) = io s @ Next l #
     (if is_request l
      then [Emit (delta_event (fst (split_joke (select_joke (turns s))))),
            Sleep (Decimal 5 2),
            Emit (delta_event (snd (split_joke (select_joke (turns s))))),
            Emit (assistant_event (select_joke (turns s))),
            Emit (result_event (select_joke (turns s)) (turns s + 1))]
      else [])"
  by (simp add: step_blank step_request turn_io)

lemma stdout_step:
  "stdout (io (step l s)) =
     stdout (io s) @ (if is_request l then records_of_turn (turns s) else [])"
  by (simp add: io_step stdout_append records_of_turn_def)

lemma turns_main: "turns (main ls) = int (length (requests ls))"
  by (induction ls rule: rev_induct) (simp_all add: main_Nil main_snoc turns_step requests_def)

lemma stdout_main:
  "stdout (io (main ls)) =
     init_event # concat (map (\<lambda>k. records_of_turn (int k)) [0..<length (requests ls)])"
  by (induction ls rule: rev_induct)
     (simp_all add: main_Nil main_snoc stdout_step turns_main requests_def)

lemma reads_step: "reads (io (step l s)) = reads (io s) @ [l]"
  by (simp add: io_step reads_append)

lemma reads_main: "reads (io (main ls)) = ls"
  by (induction ls rule: rev_induct) (simp_all add: main_Nil main_snoc reads_step)

lemma io_step_prefix: "prefix (io s) (io (step l s))"
  by (simp add: io_step)

lemma io_loop_prefix: "prefix (io s) (io (loop ys s))"
proof (induction ys arbitrary: s)
  case Nil
  show ?case by simp
next
  case (Cons y ys)
  have "prefix (io s) (io (step y s))" by (rule io_step_prefix)
  also have "prefix (io (step y s)) (io (loop ys (step y s)))" by (rule Cons.IH)
  finally show ?case by simp
qed

lemma io_main_prefix: "prefix (io (main xs)) (io (main (xs @ ys)))"
  by (simp add: main_def loop_append io_loop_prefix)

section \<open>Facts about the records\<close>

lemma kind_of_init: "kind_of init_event = Init"
  by (simp add: kind_of_def is_init_def init_event_def)

lemma kind_of_delta: "kind_of (delta_event p) = Delta"
  by (simp add: kind_of_def is_init_def is_delta_def delta_event_def)

lemma kind_of_assistant: "kind_of (assistant_event j) = Assistant"
  by (simp add: kind_of_def is_init_def is_delta_def is_assistant_def assistant_event_def)

lemma kind_of_result: "kind_of (result_event j n) = Result"
  by (simp add: kind_of_def is_init_def is_delta_def is_assistant_def is_result_def
      result_event_def)

lemma delta_text_delta: "delta_text (delta_event p) = Some p"
  by (simp add: delta_text_def delta_event_def)

lemma assistant_text_assistant: "assistant_text (assistant_event j) = Some j"
  by (simp add: assistant_text_def assistant_event_def)

lemma result_text_result: "result_text (result_event j n) = Some j"
  by (simp add: result_text_def result_event_def)

lemma num_turns_result: "num_turns (result_event j n) = Some n"
  by (simp add: num_turns_def result_event_def)

lemma kinds_of_turn:
  "map kind_of (records_of_turn n) = [Delta, Delta, Assistant, Result]"
  by (simp add: records_of_turn_def kind_of_delta kind_of_assistant kind_of_result)

lemma is_init_records:
  "is_init init_event" "\<not> is_init (delta_event p)" "\<not> is_init (assistant_event j)"
  "\<not> is_init (result_event j n)"
  by (simp_all add: is_init_def init_event_def delta_event_def assistant_event_def
      result_event_def)

lemma is_assistant_records:
  "\<not> is_assistant init_event" "\<not> is_assistant (delta_event p)"
  "is_assistant (assistant_event j)" "\<not> is_assistant (result_event j n)"
  by (simp_all add: is_assistant_def init_event_def delta_event_def assistant_event_def
      result_event_def)

lemma is_result_records:
  "\<not> is_result init_event" "\<not> is_result (delta_event p)"
  "\<not> is_result (assistant_event j)" "is_result (result_event j n)"
  by (simp_all add: is_result_def init_event_def delta_event_def assistant_event_def
      result_event_def)

lemma select_joke_nat: "select_joke (int k) = JOKES ! (k mod length JOKES)"
  by (simp add: select_joke_def flip: zmod_int)

lemma length_JOKES: "length JOKES = 6"
  by (simp add: JOKES_def)

lemma kinds_main:
  "map kind_of (stdout (io (main ls))) =
     Init # concat (replicate (length (requests ls)) [Delta, Delta, Assistant, Result])"
  by (simp add: stdout_main kind_of_init map_concat comp_def kinds_of_turn
      map_replicate_const)

lemma results_main:
  "filter is_result (stdout (io (main ls))) =
     map (\<lambda>k. result_event (select_joke (int k)) (int k + 1)) [0..<length (requests ls)]"
  by (simp add: stdout_main is_result_records filter_concat comp_def records_of_turn_def)

lemma assistants_main:
  "filter is_assistant (stdout (io (main ls))) =
     map (\<lambda>k. assistant_event (select_joke (int k))) [0..<length (requests ls)]"
  by (simp add: stdout_main is_assistant_records filter_concat comp_def records_of_turn_def)

lemma inits_main: "filter is_init (stdout (io (main ls))) = [init_event]"
  by (simp add: stdout_main is_init_records filter_concat comp_def records_of_turn_def)

lemma map_upt_shift: "map (\<lambda>k. f (Suc k)) [0..<n] = map f [1..<Suc n]"
  by (simp add: map_Suc_upt [symmetric] comp_def del: upt_Suc)

lemma io_main_snoc:
  "io (main (pre @ [l])) = io (main pre) @ Next l #
     (if is_request l
      then [Emit (delta_event (fst (split_joke (select_joke (int (length (requests pre))))))),
            Sleep (Decimal 5 2),
            Emit (delta_event (snd (split_joke (select_joke (int (length (requests pre))))))),
            Emit (assistant_event (select_joke (int (length (requests pre))))),
            Emit (result_event (select_joke (int (length (requests pre))))
              (int (length (requests pre)) + 1))]
      else [])"
  by (simp add: main_snoc io_step turns_main)

lemma stdout_main_snoc:
  "stdout (io (main (pre @ [l]))) = stdout (io (main pre)) @
     (if is_request l then records_of_turn (int (length (requests pre))) else [])"
  by (simp add: main_snoc stdout_step turns_main)

lemma first_at_end:
  "x \<in> set xs \<Longrightarrow>
     (Suc (length (takeWhile (\<lambda>c. c \<noteq> x) xs)) = length xs) = (x \<notin> set (butlast xs))"
  by (induction xs) auto

lemma snd_split_empty_iff:
  "snd (split_joke s) = [] \<longleftrightarrow>
     (SPACE \<notin> set (drop (length s div 2) s) \<and> length s \<le> 2)
     \<or> (SPACE \<in> set (drop (length s div 2) s)
         \<and> SPACE \<notin> set (drop (length s div 2) (butlast s)))"
proof (cases "SPACE \<in> set (drop (length s div 2) s)")
  case False
  have "length s \<le> Suc (length s div 2) \<longleftrightarrow> length s \<le> 2" by arith
  then show ?thesis using False by (simp add: split_joke_index split_index_def)
next
  case True
  let ?d = "drop (length s div 2) s"
  let ?t = "length (takeWhile (\<lambda>c. c \<noteq> SPACE) ?d)"
  have lt: "?t < length ?d" using True by (rule takeWhile_stops) simp
  have "snd (split_joke s) = [] \<longleftrightarrow> length s \<le> Suc (length s div 2 + ?t)"
    using True by (simp add: split_joke_index split_index_def)
  also have "\<dots> \<longleftrightarrow> Suc ?t = length ?d" using lt by auto
  also have "\<dots> \<longleftrightarrow> SPACE \<notin> set (butlast ?d)" using True by (rule first_at_end)
  also have "butlast ?d = drop (length s div 2) (butlast s)" by (simp add: drop_butlast)
  finally show ?thesis using True by simp
qed

lemma fst_split_empty_iff: "fst (split_joke s) = [] \<longleftrightarrow> s = []"
  by (simp add: split_joke_index)

lemma snd_split_nonempty:
  assumes "3 \<le> length s" "last s \<noteq> SPACE"
  shows "snd (split_joke s) \<noteq> []"
proof
  assume "snd (split_joke s) = []"
  then consider
      (short) "length s \<le> 2"
    | (ends) "SPACE \<in> set (drop (length s div 2) s)"
        "SPACE \<notin> set (drop (length s div 2) (butlast s))"
    unfolding snd_split_empty_iff by blast
  then show False
  proof cases
    case short
    then show False using assms(1) by simp
  next
    case ends
    have ne: "s \<noteq> []" using assms(1) by auto
    then have s: "s = butlast s @ [last s]" by simp
    have "drop (length s div 2) s = drop (length s div 2) (butlast s) @ [last s]"
      using assms(1) by (subst s) (simp del: append_butlast_last_id)
    then have "SPACE \<in> set (drop (length s div 2) (butlast s)) \<or> SPACE = last s"
      using ends(1) by auto
    then show False using ends(2) assms(2) by auto
  qed
qed

lemma jokes_shape: "\<forall>j \<in> set JOKES. 3 \<le> length j \<and> last j \<noteq> SPACE"
  by (simp add: JOKES_def)

lemma length_requests_pattern:
  "length (requests ls) = length (filter (\<lambda>b. b) (map is_request ls))"
  by (simp add: requests_def comp_def)

lemma rstrip_trailing:
  "body = [] \<or> last body \<noteq> LF \<Longrightarrow> rstrip (body @ replicate n LF) ''\<newline>'' = body"
proof -
  assume b: "body = [] \<or> last body \<noteq> LF"
  have "dropWhile (\<lambda>c. c \<in> set ''\<newline>'') (replicate n LF @ rev body)
      = dropWhile (\<lambda>c. c \<in> set ''\<newline>'') (rev body)"
    by (rule dropWhile_append2) simp
  also have "\<dots> = rev body"
    using b by (cases "rev body") (auto simp: last_rev [symmetric] simp del: last_rev)
  finally show ?thesis by (simp add: rstrip_def)
qed


section \<open>The claims\<close>

text \<open>
  C2. The two delta texts of a turn, put together, are the response content of the turn:
  for every string the two parts of \<open>split_joke\<close> concatenate to the string, and in
  every run the records a request line adds carry two delta texts whose concatenation is
  the joke selected for the turn, which is also the text of the assistant record and of the
  result record that follow them.
\<close>

theorem deltas_concatenate_to_content:
  "fst (split_joke content) @ snd (split_joke content) = content
   \<and> (is_request l \<longrightarrow>
        (\<exists>d1 d2 a r p1 p2.
           stdout (io (main (pre @ [l]))) = stdout (io (main pre)) @ [d1, d2, a, r]
           \<and> delta_text d1 = Some p1 \<and> delta_text d2 = Some p2
           \<and> p1 @ p2 = select_joke (turns (main pre))
           \<and> assistant_text a = Some (p1 @ p2) \<and> result_text r = Some (p1 @ p2)))"
proof (intro conjI impI)
  show "fst (split_joke content) @ snd (split_joke content) = content"
    by (rule split_joke_concat)
next
  assume req: "is_request l"
  let ?n = "int (length (requests pre))"
  let ?j = "select_joke ?n"
  have a: "stdout (io (main (pre @ [l]))) = stdout (io (main pre)) @
      [delta_event (fst (split_joke ?j)), delta_event (snd (split_joke ?j)),
       assistant_event ?j, result_event ?j (?n + 1)]"
    using req by (simp add: stdout_main_snoc records_of_turn_def)
  have b: "delta_text (delta_event (fst (split_joke ?j))) = Some (fst (split_joke ?j))"
    and c: "delta_text (delta_event (snd (split_joke ?j))) = Some (snd (split_joke ?j))"
    by (rule delta_text_delta)+
  have d: "fst (split_joke ?j) @ snd (split_joke ?j) = select_joke (turns (main pre))"
    by (simp add: split_joke_concat turns_main)
  have e: "assistant_text (assistant_event ?j) = Some (fst (split_joke ?j) @ snd (split_joke ?j))"
    by (simp add: assistant_text_assistant split_joke_concat)
  have f: "result_text (result_event ?j (?n + 1))
      = Some (fst (split_joke ?j) @ snd (split_joke ?j))"
    by (simp add: result_text_result split_joke_concat)
  show "\<exists>d1 d2 a r p1 p2.
      stdout (io (main (pre @ [l]))) = stdout (io (main pre)) @ [d1, d2, a, r]
      \<and> delta_text d1 = Some p1 \<and> delta_text d2 = Some p2
      \<and> p1 @ p2 = select_joke (turns (main pre))
      \<and> assistant_text a = Some (p1 @ p2) \<and> result_text r = Some (p1 @ p2)"
    by (intro exI conjI) (rule a, rule b, rule c, rule d, rule e, rule f)
qed

theorem deltas_concatenate_to_content_witness:
  "fst (split_joke ''tell me a joke'') @ snd (split_joke ''tell me a joke'') = ''tell me a joke''
   \<and> (\<exists>d1 d2 a r p1 p2.
         stdout (io (main ([] @ [''go\<newline>'']))) = stdout (io (main [])) @ [d1, d2, a, r]
         \<and> delta_text d1 = Some p1 \<and> delta_text d2 = Some p2
         \<and> p1 @ p2 = select_joke (turns (main []))
         \<and> assistant_text a = Some (p1 @ p2) \<and> result_text r = Some (p1 @ p2))"
proof -
  have req: "is_request ''go\<newline>''"
    by (simp add: is_request_def rstrip_def)
  show ?thesis
    using deltas_concatenate_to_content
      [where content = "''tell me a joke''" and l = "''go\<newline>''" and pre = "[]"] req
    by blast
qed

text \<open>
  C1. A request line adds exactly four records to the output, in the order delta, delta,
  assistant, result (with the pause between the two deltas), and what a run has done stays
  as it is when more lines follow; so the whole output is the init record followed by one
  such block per request line. Three request lines give thirteen records, whose result
  records count the turns 1, 2, 3.
\<close>

theorem four_records_per_request:
  "(is_request l \<longrightarrow>
      (\<exists>d1 d2 a r.
         io (main (pre @ [l])) =
           io (main pre) @ [Next l, Emit d1, Sleep (Decimal 5 2), Emit d2, Emit a, Emit r]
         \<and> map kind_of [d1, d2, a, r] = [Delta, Delta, Assistant, Result]))
   \<and> prefix (io (main (pre @ [l]))) (io (main ((pre @ [l]) @ post)))
   \<and> map kind_of (stdout (io (main ls))) =
         Init # concat (replicate (length (requests ls)) [Delta, Delta, Assistant, Result])
   \<and> length (stdout (io (main ls))) = 1 + 4 * length (requests ls)
   \<and> (length ls = 3 \<and> (\<forall>x \<in> set ls. is_request x) \<longrightarrow>
        length (stdout (io (main ls))) = 13
        \<and> map num_turns (filter is_result (stdout (io (main ls)))) = [Some 1, Some 2, Some 3])"
proof (intro conjI impI)
  assume req: "is_request l"
  let ?j = "select_joke (int (length (requests pre)))"
  have a: "io (main (pre @ [l])) = io (main pre) @
      [Next l, Emit (delta_event (fst (split_joke ?j))), Sleep (Decimal 5 2),
       Emit (delta_event (snd (split_joke ?j))), Emit (assistant_event ?j),
       Emit (result_event ?j (int (length (requests pre)) + 1))]"
    using req by (simp add: io_main_snoc)
  have b: "map kind_of
      [delta_event (fst (split_joke ?j)), delta_event (snd (split_joke ?j)),
       assistant_event ?j, result_event ?j (int (length (requests pre)) + 1)]
      = [Delta, Delta, Assistant, Result]"
    by (simp add: kind_of_delta kind_of_assistant kind_of_result)
  show "\<exists>d1 d2 a r.
      io (main (pre @ [l])) =
        io (main pre) @ [Next l, Emit d1, Sleep (Decimal 5 2), Emit d2, Emit a, Emit r]
      \<and> map kind_of [d1, d2, a, r] = [Delta, Delta, Assistant, Result]"
    by (intro exI conjI) (rule a, rule b)
next
  show "prefix (io (main (pre @ [l]))) (io (main ((pre @ [l]) @ post)))"
    by (rule io_main_prefix)
next
  show "map kind_of (stdout (io (main ls))) =
      Init # concat (replicate (length (requests ls)) [Delta, Delta, Assistant, Result])"
    by (rule kinds_main)
next
  have "length (map kind_of (stdout (io (main ls)))) = 1 + 4 * length (requests ls)"
    unfolding kinds_main by (simp add: length_concat sum_list_replicate)
  then show "length (stdout (io (main ls))) = 1 + 4 * length (requests ls)"
    by simp
next
  assume three: "length ls = 3 \<and> (\<forall>x \<in> set ls. is_request x)"
  then have n: "length (requests ls) = 3"
    by (simp add: requests_def)
  have "length (map kind_of (stdout (io (main ls)))) = 1 + 4 * length (requests ls)"
    unfolding kinds_main by (simp add: length_concat sum_list_replicate)
  then show "length (stdout (io (main ls))) = 13"
    using n by simp
next
  assume three: "length ls = 3 \<and> (\<forall>x \<in> set ls. is_request x)"
  then have n: "length (requests ls) = 3"
    by (simp add: requests_def)
  have upt3: "[0..<3] = [0, Suc 0, Suc (Suc 0)]"
    by (simp add: numeral_3_eq_3)
  show "map num_turns (filter is_result (stdout (io (main ls)))) = [Some 1, Some 2, Some 3]"
    by (simp add: results_main n upt3 num_turns_result)
qed

theorem four_records_per_request_witness:
  "(\<exists>d1 d2 a r.
      io (main ([''one\<newline>''] @ [''two\<newline>''])) =
        io (main [''one\<newline>''])
          @ [Next (''two\<newline>''), Emit d1, Sleep (Decimal 5 2), Emit d2, Emit a, Emit r]
      \<and> map kind_of [d1, d2, a, r] = [Delta, Delta, Assistant, Result])
   \<and> length (stdout (io (main [''one\<newline>'', ''two\<newline>'', ''three'']))) = 13
   \<and> map num_turns (filter is_result (stdout (io (main [''one\<newline>'', ''two\<newline>'', ''three'']))))
       = [Some 1, Some 2, Some 3]"
proof -
  have req: "is_request (''one\<newline>'')" "is_request (''two\<newline>'')" "is_request ''three''"
    by (simp_all add: is_request_def rstrip_def)
  have three: "length [''one\<newline>'', ''two\<newline>'', ''three''] = 3
      \<and> (\<forall>x \<in> set [''one\<newline>'', ''two\<newline>'', ''three'']. is_request x)"
    using req by simp
  show ?thesis
    using four_records_per_request
      [where l = "''two\<newline>''" and pre = "[''one\<newline>'']"
         and ls = "[''one\<newline>'', ''two\<newline>'', ''three'']"] req(2) three
    by blast
qed

text \<open>
  C3. The k-th request line (counted from 1) is answered with entry \<open>(k - 1) mod 6\<close> of
  \<open>JOKES\<close>, in the assistant record and in the result record alike; so the request
  after a full round of the list is answered like the first one.
\<close>

theorem content_cycles_through_jokes:
  "(is_request l \<longrightarrow>
      (\<exists>d1 d2 a r.
         stdout (io (main (pre @ [l]))) = stdout (io (main pre)) @ [d1, d2, a, r]
         \<and> assistant_text a = Some (JOKES ! ((length (requests (pre @ [l])) - 1) mod length JOKES))
         \<and> result_text r = Some (JOKES ! ((length (requests (pre @ [l])) - 1) mod length JOKES))))
   \<and> map assistant_text (filter is_assistant (stdout (io (main ls)))) =
         map (\<lambda>k. Some (JOKES ! ((k - 1) mod length JOKES))) [1..<Suc (length (requests ls))]
   \<and> map result_text (filter is_result (stdout (io (main ls)))) =
         map (\<lambda>k. Some (JOKES ! ((k - 1) mod length JOKES))) [1..<Suc (length (requests ls))]
   \<and> (length JOKES < length (requests ls) \<longrightarrow>
        map assistant_text (filter is_assistant (stdout (io (main ls)))) ! length JOKES
          = map assistant_text (filter is_assistant (stdout (io (main ls)))) ! 0
        \<and> map result_text (filter is_result (stdout (io (main ls)))) ! length JOKES
          = map result_text (filter is_result (stdout (io (main ls)))) ! 0)"
proof (intro conjI impI)
  assume req: "is_request l"
  let ?n = "length (requests pre)"
  let ?j = "select_joke (int ?n)"
  have k: "length (requests (pre @ [l])) - 1 = ?n"
    using req by (simp add: requests_def)
  have "stdout (io (main (pre @ [l]))) = stdout (io (main pre)) @
      [delta_event (fst (split_joke ?j)), delta_event (snd (split_joke ?j)),
       assistant_event ?j, result_event ?j (int ?n + 1)]"
    using req by (simp add: stdout_main_snoc records_of_turn_def)
  moreover have "assistant_text (assistant_event ?j)
      = Some (JOKES ! ((length (requests (pre @ [l])) - 1) mod length JOKES))"
    unfolding k by (simp add: assistant_text_assistant select_joke_nat)
  moreover have "result_text (result_event ?j (int ?n + 1))
      = Some (JOKES ! ((length (requests (pre @ [l])) - 1) mod length JOKES))"
    unfolding k by (simp add: result_text_result select_joke_nat)
  ultimately show "\<exists>d1 d2 a r.
      stdout (io (main (pre @ [l]))) = stdout (io (main pre)) @ [d1, d2, a, r]
      \<and> assistant_text a = Some (JOKES ! ((length (requests (pre @ [l])) - 1) mod length JOKES))
      \<and> result_text r = Some (JOKES ! ((length (requests (pre @ [l])) - 1) mod length JOKES))"
    by blast
next
  have "map assistant_text (filter is_assistant (stdout (io (main ls)))) =
      map (\<lambda>k. Some (JOKES ! ((Suc k - 1) mod length JOKES))) [0..<length (requests ls)]"
    by (simp add: assistants_main comp_def assistant_text_assistant select_joke_nat)
  then show "map assistant_text (filter is_assistant (stdout (io (main ls)))) =
      map (\<lambda>k. Some (JOKES ! ((k - 1) mod length JOKES))) [1..<Suc (length (requests ls))]"
    by (simp only: map_upt_shift [of "\<lambda>k. Some (JOKES ! ((k - 1) mod length JOKES))"])
next
  have "map result_text (filter is_result (stdout (io (main ls)))) =
      map (\<lambda>k. Some (JOKES ! ((Suc k - 1) mod length JOKES))) [0..<length (requests ls)]"
    by (simp add: results_main comp_def result_text_result select_joke_nat)
  then show "map result_text (filter is_result (stdout (io (main ls)))) =
      map (\<lambda>k. Some (JOKES ! ((k - 1) mod length JOKES))) [1..<Suc (length (requests ls))]"
    by (simp only: map_upt_shift [of "\<lambda>k. Some (JOKES ! ((k - 1) mod length JOKES))"])
next
  assume more: "length JOKES < length (requests ls)"
  then have pos: "0 < length (requests ls)" by (rule le_less_trans [OF le0])
  have "map assistant_text (filter is_assistant (stdout (io (main ls)))) =
      map (\<lambda>k. Some (JOKES ! (k mod length JOKES))) [0..<length (requests ls)]"
    by (simp add: assistants_main comp_def assistant_text_assistant select_joke_nat)
  then show "map assistant_text (filter is_assistant (stdout (io (main ls)))) ! length JOKES
      = map assistant_text (filter is_assistant (stdout (io (main ls)))) ! 0"
    using more pos by simp
next
  assume more: "length JOKES < length (requests ls)"
  then have pos: "0 < length (requests ls)" by (rule le_less_trans [OF le0])
  have "map result_text (filter is_result (stdout (io (main ls)))) =
      map (\<lambda>k. Some (JOKES ! (k mod length JOKES))) [0..<length (requests ls)]"
    by (simp add: results_main comp_def result_text_result select_joke_nat)
  then show "map result_text (filter is_result (stdout (io (main ls)))) ! length JOKES
      = map result_text (filter is_result (stdout (io (main ls)))) ! 0"
    using more pos by simp
qed

theorem content_cycles_through_jokes_witness:
  "(\<exists>d1 d2 a r.
      stdout (io (main ([''mon\<newline>'', ''tue\<newline>'', ''wed\<newline>'', ''thu\<newline>'', ''fri\<newline>'', ''sat\<newline>''] @ [''sun\<newline>''])))
        = stdout (io (main [''mon\<newline>'', ''tue\<newline>'', ''wed\<newline>'', ''thu\<newline>'', ''fri\<newline>'', ''sat\<newline>''])) @ [d1, d2, a, r]
      \<and> assistant_text a = Some (JOKES ! 0) \<and> result_text r = Some (JOKES ! 0))
   \<and> map assistant_text (filter is_assistant
         (stdout (io (main [''mon\<newline>'', ''tue\<newline>'', ''wed\<newline>'', ''thu\<newline>'', ''fri\<newline>'', ''sat\<newline>'', ''sun\<newline>''])))) ! 6
       = map assistant_text (filter is_assistant
         (stdout (io (main [''mon\<newline>'', ''tue\<newline>'', ''wed\<newline>'', ''thu\<newline>'', ''fri\<newline>'', ''sat\<newline>'', ''sun\<newline>''])))) ! 0"
proof -
  have req: "is_request ''sun\<newline>''"
    by (simp add: is_request_def rstrip_def)
  have k: "(length (requests ([''mon\<newline>'', ''tue\<newline>'', ''wed\<newline>'', ''thu\<newline>'', ''fri\<newline>'', ''sat\<newline>''] @ [''sun\<newline>''])) - 1)
      mod 6 = 0"
    by (simp add: requests_def is_request_def rstrip_def length_JOKES)
  have more: "length JOKES < length (requests [''mon\<newline>'', ''tue\<newline>'', ''wed\<newline>'', ''thu\<newline>'', ''fri\<newline>'', ''sat\<newline>'', ''sun\<newline>''])"
    by (simp add: requests_def is_request_def rstrip_def length_JOKES)
  show ?thesis
    using content_cycles_through_jokes
      [where l = "''sun\<newline>''" and pre = "[''mon\<newline>'', ''tue\<newline>'', ''wed\<newline>'', ''thu\<newline>'', ''fri\<newline>'', ''sat\<newline>'']"
         and ls = "[''mon\<newline>'', ''tue\<newline>'', ''wed\<newline>'', ''thu\<newline>'', ''fri\<newline>'', ''sat\<newline>'', ''sun\<newline>'']"] req more
    unfolding length_JOKES k by blast
qed

text \<open>
  C4. The \<open>num_turns\<close> of a result record is the number of request lines read up to and
  including its own: the result records of a run carry 1, 2, 3, ... in this order, a
  request line adds one to the counter, and an empty line changes neither the counter nor
  the output.
\<close>

theorem num_turns_counts_requests:
  "map num_turns (filter is_result (stdout (io (main ls)))) =
     map (\<lambda>k. Some (int k)) [1..<Suc (length (requests ls))]
   \<and> turns (main ls) = int (length (requests ls))
   \<and> (is_request l \<longrightarrow>
        (\<exists>d1 d2 a r.
           stdout (io (main (pre @ [l]))) = stdout (io (main pre)) @ [d1, d2, a, r]
           \<and> kind_of r = Result
           \<and> num_turns r = Some (int (length (requests (pre @ [l]))))
           \<and> num_turns r = Some (turns (main pre) + 1))
        \<and> turns (main (pre @ [l])) = turns (main pre) + 1)
   \<and> (\<not> is_request l \<longrightarrow>
        stdout (io (main (pre @ [l]))) = stdout (io (main pre))
        \<and> turns (main (pre @ [l])) = turns (main pre))"
proof (intro conjI impI)
  have "map num_turns (filter is_result (stdout (io (main ls)))) =
      map (\<lambda>k. Some (int (Suc k))) [0..<length (requests ls)]"
    by (simp add: results_main comp_def num_turns_result add.commute)
  then show "map num_turns (filter is_result (stdout (io (main ls)))) =
      map (\<lambda>k. Some (int k)) [1..<Suc (length (requests ls))]"
    by (simp only: map_upt_shift [of "\<lambda>k. Some (int k)"])
next
  show "turns (main ls) = int (length (requests ls))"
    by (rule turns_main)
next
  assume req: "is_request l"
  let ?n = "length (requests pre)"
  let ?j = "select_joke (int ?n)"
  have a: "stdout (io (main (pre @ [l]))) = stdout (io (main pre)) @
      [delta_event (fst (split_joke ?j)), delta_event (snd (split_joke ?j)),
       assistant_event ?j, result_event ?j (int ?n + 1)]"
    using req by (simp add: stdout_main_snoc records_of_turn_def)
  have b: "kind_of (result_event ?j (int ?n + 1)) = Result"
    by (rule kind_of_result)
  have c: "num_turns (result_event ?j (int ?n + 1)) = Some (int (length (requests (pre @ [l]))))"
    using req by (simp add: num_turns_result requests_def)
  have d: "num_turns (result_event ?j (int ?n + 1)) = Some (turns (main pre) + 1)"
    by (simp add: num_turns_result turns_main)
  show "\<exists>d1 d2 a r.
      stdout (io (main (pre @ [l]))) = stdout (io (main pre)) @ [d1, d2, a, r]
      \<and> kind_of r = Result
      \<and> num_turns r = Some (int (length (requests (pre @ [l]))))
      \<and> num_turns r = Some (turns (main pre) + 1)"
    by (intro exI conjI) (rule a, rule b, rule c, rule d)
next
  assume "is_request l"
  then show "turns (main (pre @ [l])) = turns (main pre) + 1"
    by (simp add: main_snoc turns_step)
next
  assume "\<not> is_request l"
  then show "stdout (io (main (pre @ [l]))) = stdout (io (main pre))"
    by (simp add: stdout_main_snoc)
next
  assume "\<not> is_request l"
  then show "turns (main (pre @ [l])) = turns (main pre)"
    by (simp add: main_snoc turns_step)
qed

theorem num_turns_counts_requests_witness:
  "(\<exists>d1 d2 a r.
      stdout (io (main ([''a\<newline>'', ''\<newline>''] @ [''b\<newline>''])))
        = stdout (io (main [''a\<newline>'', ''\<newline>''])) @ [d1, d2, a, r]
      \<and> kind_of r = Result \<and> num_turns r = Some 2)
   \<and> turns (main ([''a\<newline>'', ''\<newline>''] @ [''b\<newline>''])) = turns (main [''a\<newline>'', ''\<newline>'']) + 1
   \<and> stdout (io (main ([''a\<newline>''] @ [''\<newline>'']))) = stdout (io (main [''a\<newline>'']))
   \<and> turns (main ([''a\<newline>''] @ [''\<newline>''])) = turns (main [''a\<newline>''])"
proof -
  have req: "is_request ''b\<newline>''" and blank: "\<not> is_request ''\<newline>''"
    by (simp_all add: is_request_def rstrip_def)
  have k: "int (length (requests ([''a\<newline>'', ''\<newline>''] @ [''b\<newline>'']))) = 2"
    by (simp add: requests_def is_request_def rstrip_def)
  show ?thesis
    using num_turns_counts_requests [where l = "''b\<newline>''" and pre = "[''a\<newline>'', ''\<newline>'']"] req
      num_turns_counts_requests [where l = "''\<newline>''" and pre = "[''a\<newline>'']"] blank
    unfolding k by blast
qed

text \<open>
  C5. The first effect of every run is the emission of the init record: every line of the
  input is read after it, and no record emitted later is an init record. With no input at
  all the init record is still written.
\<close>

theorem init_record_once_and_first:
  "(\<exists>rest. io (main ls) = Emit init_event # rest
       \<and> is_init init_event \<and> filter is_init (stdout rest) = [] \<and> reads rest = ls)
   \<and> filter is_init (stdout (io (main ls))) = [init_event]
   \<and> io (main []) = [Emit init_event]"
proof (intro conjI)
  have "prefix (io (emit init_event \<lparr>turns = 0, io = []\<rparr>)) (io (main ls))"
    unfolding main_def by (rule io_loop_prefix)
  then obtain rest where rest: "io (main ls) = Emit init_event # rest"
    by (auto simp: prefix_def emit_def)
  have "filter is_init (stdout (io (main ls))) = [init_event]"
    by (rule inits_main)
  then have a: "filter is_init (stdout rest) = []"
    by (simp add: rest is_init_records)
  have "reads (io (main ls)) = ls"
    by (rule reads_main)
  then have b: "reads rest = ls"
    by (simp add: rest)
  show "\<exists>rest. io (main ls) = Emit init_event # rest
      \<and> is_init init_event \<and> filter is_init (stdout rest) = [] \<and> reads rest = ls"
    using rest a b is_init_records(1) by blast
next
  show "filter is_init (stdout (io (main ls))) = [init_event]"
    by (rule inits_main)
next
  show "io (main []) = [Emit init_event]"
    by (simp add: main_Nil)
qed

theorem init_record_once_and_first_witness:
  "\<exists>rest. io (main [''hello\<newline>'', ''\<newline>'']) = Emit init_event # rest
     \<and> is_init init_event \<and> filter is_init (stdout rest) = []
     \<and> reads rest = [''hello\<newline>'', ''\<newline>'']"
  using init_record_once_and_first [of "[''hello\<newline>'', ''\<newline>'']"] by blast

text \<open>
  C8. A line of which nothing is left after \<^verbatim>\<open>rstrip("\n")\<close> is read and skipped: the
  run gains the read and nothing else, so the output and the counter stay as they were (the
  model has no failing branch, as the source has none for such a line). An input of such
  lines only gives the init record and no other.
\<close>

theorem blank_lines_are_skipped:
  "(rstrip l ''\<newline>'' = [] \<longrightarrow>
      main (pre @ [l]) = (main pre)\<lparr>io := io (main pre) @ [Next l]\<rparr>
      \<and> stdout (io (main (pre @ [l]))) = stdout (io (main pre))
      \<and> turns (main (pre @ [l])) = turns (main pre))
   \<and> ((\<forall>x \<in> set ls. rstrip x ''\<newline>'' = []) \<longrightarrow>
        stdout (io (main ls)) = [init_event] \<and> turns (main ls) = 0)"
proof (intro conjI impI)
  assume "rstrip l ''\<newline>'' = []"
  then have blank: "\<not> is_request l" by (simp add: is_request_def)
  show "main (pre @ [l]) = (main pre)\<lparr>io := io (main pre) @ [Next l]\<rparr>"
    using blank by (simp add: main_snoc step_blank)
  show "stdout (io (main (pre @ [l]))) = stdout (io (main pre))"
    using blank by (simp add: stdout_main_snoc)
  show "turns (main (pre @ [l])) = turns (main pre)"
    using blank by (simp add: main_snoc turns_step)
next
  assume "\<forall>x \<in> set ls. rstrip x ''\<newline>'' = []"
  then have none: "requests ls = []"
    by (simp add: requests_def is_request_def)
  show "stdout (io (main ls)) = [init_event]"
    by (simp add: stdout_main none)
  show "turns (main ls) = 0"
    by (simp add: turns_main none)
qed

theorem blank_lines_are_skipped_witness:
  "main ([''x\<newline>''] @ [''\<newline>'']) = (main [''x\<newline>''])\<lparr>io := io (main [''x\<newline>'']) @ [Next ''\<newline>'']\<rparr>
   \<and> stdout (io (main ([''x\<newline>''] @ [''\<newline>'']))) = stdout (io (main [''x\<newline>'']))
   \<and> turns (main ([''x\<newline>''] @ [''\<newline>''])) = turns (main [''x\<newline>''])
   \<and> stdout (io (main [''\<newline>'', ''\<newline>'', ''\<newline>''])) = [init_event]
   \<and> turns (main [''\<newline>'', ''\<newline>'', ''\<newline>'']) = 0"
proof -
  have blank: "rstrip ''\<newline>'' ''\<newline>'' = []"
    by (simp add: rstrip_def)
  then have all: "\<forall>x \<in> set [''\<newline>'', ''\<newline>'', ''\<newline>'']. rstrip x ''\<newline>'' = []"
    by simp
  show ?thesis
    using blank_lines_are_skipped
      [where l = "''\<newline>''" and pre = "[''x\<newline>'']" and ls = "[''\<newline>'', ''\<newline>'', ''\<newline>'']"] blank all
    by blast
qed

text \<open>
  C9. The output of a run is a function of the pattern of request lines and blank lines
  alone: two inputs whose lines agree, one by one, on the test \<open>is_request\<close> give the
  same records in the same order (and the same final counter), whatever the lines say.
\<close>

theorem output_depends_only_on_blank_pattern:
  "map is_request ls1 = map is_request ls2 \<Longrightarrow>
     stdout (io (main ls1)) = stdout (io (main ls2)) \<and> turns (main ls1) = turns (main ls2)"
proof -
  assume "map is_request ls1 = map is_request ls2"
  then have "length (requests ls1) = length (requests ls2)"
    by (simp only: length_requests_pattern)
  then show ?thesis
    by (simp add: stdout_main turns_main)
qed

theorem output_depends_only_on_blank_pattern_witness:
  "stdout (io (main [''fix the bug\<newline>'', ''\<newline>'', ''x'']))
     = stdout (io (main [''{}\<newline>'', ''\<newline>'', ''write a poem\<newline>'']))
   \<and> turns (main [''fix the bug\<newline>'', ''\<newline>'', ''x''])
     = turns (main [''{}\<newline>'', ''\<newline>'', ''write a poem\<newline>''])"
proof -
  have "map is_request [''fix the bug\<newline>'', ''\<newline>'', ''x'']
      = map is_request [''{}\<newline>'', ''\<newline>'', ''write a poem\<newline>'']"
    by (simp add: is_request_def rstrip_def)
  then show ?thesis
    by (rule output_depends_only_on_blank_pattern)
qed

text \<open>
  C10. \<^verbatim>\<open>rstrip("\n")\<close> removes line feeds at the end and nothing else, so a line that
  holds any other character, be it a space or the carriage return of a CRLF ending, is a
  request: it adds the four records of a turn and one to the counter.
\<close>

theorem only_line_feeds_are_stripped:
  "((\<exists>c \<in> set l. c \<noteq> LF) \<longrightarrow>
      is_request l
      \<and> turns (main (pre @ [l])) = turns (main pre) + 1
      \<and> (\<exists>recs. stdout (io (main (pre @ [l]))) = stdout (io (main pre)) @ recs
            \<and> map kind_of recs = [Delta, Delta, Assistant, Result]))
   \<and> (body = [] \<or> last body \<noteq> LF \<longrightarrow> rstrip (body @ replicate n LF) ''\<newline>'' = body)
   \<and> is_request (''   \<newline>'') \<and> is_request [CHR 0x0D, LF]"
proof (intro conjI impI)
  assume "\<exists>c \<in> set l. c \<noteq> LF"
  then show req: "is_request l"
    by (simp add: is_request_iff)
  show "turns (main (pre @ [l])) = turns (main pre) + 1"
    using req by (simp add: main_snoc turns_step)
  have "stdout (io (main (pre @ [l])))
      = stdout (io (main pre)) @ records_of_turn (int (length (requests pre)))"
    using req by (simp add: stdout_main_snoc)
  then show "\<exists>recs. stdout (io (main (pre @ [l]))) = stdout (io (main pre)) @ recs
      \<and> map kind_of recs = [Delta, Delta, Assistant, Result]"
    using kinds_of_turn by blast
next
  assume "body = [] \<or> last body \<noteq> LF"
  then show "rstrip (body @ replicate n LF) ''\<newline>'' = body"
    by (rule rstrip_trailing)
next
  show "is_request (''   \<newline>'')"
    by (simp add: is_request_def rstrip_def)
next
  show "is_request [CHR 0x0D, LF]"
    by (simp add: is_request_def rstrip_def)
qed

theorem only_line_feeds_are_stripped_witness:
  "is_request [CHR 0x0D, LF]
   \<and> turns (main ([''\<newline>''] @ [[CHR 0x0D, LF]])) = turns (main [''\<newline>'']) + 1
   \<and> (\<exists>recs. stdout (io (main ([''\<newline>''] @ [[CHR 0x0D, LF]]))) = stdout (io (main [''\<newline>''])) @ recs
         \<and> map kind_of recs = [Delta, Delta, Assistant, Result])
   \<and> rstrip ('' hi '' @ replicate 2 LF) ''\<newline>'' = '' hi ''"
proof -
  have other: "\<exists>c \<in> set [CHR 0x0D, LF]. c \<noteq> LF"
    by simp
  have body: "'' hi '' = [] \<or> last '' hi '' \<noteq> LF"
    by simp
  show ?thesis
    using only_line_feeds_are_stripped
      [where l = "[CHR 0x0D, LF]" and pre = "[''\<newline>'']" and body = "'' hi ''" and n = 2]
      other body
    by blast
qed

text \<open>
  C6, as the code has it. The split point is the first space character at or after the
  midpoint \<open>length s div 2\<close>, and the first part runs up to and including that space. No
  other whitespace counts. Without a space at or after the midpoint the first part runs up
  to and including the character at the midpoint: it has \<open>length s div 2 + 1\<close>
  characters, not \<open>length s div 2\<close>.
\<close>

theorem split_at_first_space_or_after_midpoint:
  "(length s div 2 \<le> i \<and> i < length s \<and> s ! i = SPACE
      \<and> (\<forall>j. length s div 2 \<le> j \<and> j < i \<longrightarrow> s ! j \<noteq> SPACE) \<longrightarrow>
      split_joke s = (take (Suc i) s, drop (Suc i) s))
   \<and> ((\<forall>j. length s div 2 \<le> j \<and> j < length s \<longrightarrow> s ! j \<noteq> SPACE) \<longrightarrow>
        split_joke s = (take (Suc (length s div 2)) s, drop (Suc (length s div 2)) s))"
proof (intro conjI impI)
  assume "length s div 2 \<le> i \<and> i < length s \<and> s ! i = SPACE
      \<and> (\<forall>j. length s div 2 \<le> j \<and> j < i \<longrightarrow> s ! j \<noteq> SPACE)"
  then have "split_index s = i"
    by (intro split_index_first_space) auto
  then show "split_joke s = (take (Suc i) s, drop (Suc i) s)"
    by (simp add: split_joke_index)
next
  assume "\<forall>j. length s div 2 \<le> j \<and> j < length s \<longrightarrow> s ! j \<noteq> SPACE"
  then have "split_index s = length s div 2"
    by (intro split_index_no_space) auto
  then show "split_joke s = (take (Suc (length s div 2)) s, drop (Suc (length s div 2)) s)"
    by (simp add: split_joke_index)
qed

theorem split_at_first_space_or_after_midpoint_witness:
  "split_joke ''ab cd'' = (take (Suc 2) ''ab cd'', drop (Suc 2) ''ab cd'')
   \<and> split_joke ''abcd'' = (take (Suc (length ''abcd'' div 2)) ''abcd'',
        drop (Suc (length ''abcd'' div 2)) ''abcd'')"
proof -
  have a: "length ''ab cd'' div 2 \<le> 2 \<and> 2 < length ''ab cd'' \<and> ''ab cd'' ! 2 = SPACE
      \<and> (\<forall>j. length ''ab cd'' div 2 \<le> j \<and> j < 2 \<longrightarrow> ''ab cd'' ! j \<noteq> SPACE)"
    by simp
  have b: "\<forall>j. length ''abcd'' div 2 \<le> j \<and> j < length ''abcd'' \<longrightarrow> ''abcd'' ! j \<noteq> SPACE"
  proof (intro allI impI)
    fix j :: nat
    assume "length ''abcd'' div 2 \<le> j \<and> j < length ''abcd''"
    then have "j = 2 \<or> j = 3" by auto
    then show "''abcd'' ! j \<noteq> SPACE" by auto
  qed
  show ?thesis
    using split_at_first_space_or_after_midpoint [where s = "''ab cd''" and i = 2] a
      split_at_first_space_or_after_midpoint [where s = "''abcd''"] b
    by blast
qed

text \<open>
  C6, as the specification states it, fails twice. A content without a space at or after
  its midpoint is not split at the midpoint but one character later; and a tab at or after
  the midpoint is not a split point.
\<close>

theorem split_differs_from_spec_split:
  "split_joke ''abcd'' = (''abc'', ''d'')
   \<and> spec_split ''abcd'' = (''ab'', ''cd'')
   \<and> split_joke (''abc'' @ [CHR 0x09] @ ''d e'') = (''abc'' @ [CHR 0x09] @ ''d '', ''e'')
   \<and> spec_split (''abc'' @ [CHR 0x09] @ ''d e'') = (''abc'' @ [CHR 0x09], ''d e'')"
  by (simp add: split_joke_def str_find_def slice_to_def slice_from_def slice_bound_def
      spec_split_def is_whitespace_def Let_def upt_rec)

text \<open>
  C7, as the code has it. The first delta text is empty only for an empty content. The
  second delta text is empty exactly when the content has at most two characters and no
  space at or after its midpoint, or when its only space at or after the midpoint is its
  last character. So both texts are non-empty for every content of three or more
  characters that does not end in a space, as every entry of \<open>JOKES\<close> is.
\<close>

theorem delta_texts_nonempty:
  "(fst (split_joke s) = [] \<longleftrightarrow> s = [])
   \<and> (snd (split_joke s) = [] \<longleftrightarrow>
        (SPACE \<notin> set (drop (length s div 2) s) \<and> length s \<le> 2)
        \<or> (SPACE \<in> set (drop (length s div 2) s)
            \<and> SPACE \<notin> set (drop (length s div 2) (butlast s))))
   \<and> (3 \<le> length s \<and> last s \<noteq> SPACE \<longrightarrow>
        fst (split_joke s) \<noteq> [] \<and> snd (split_joke s) \<noteq> [])
   \<and> (\<forall>j \<in> set JOKES. fst (split_joke j) \<noteq> [] \<and> snd (split_joke j) \<noteq> [])"
proof (intro conjI impI ballI)
  show "fst (split_joke s) = [] \<longleftrightarrow> s = []"
    by (rule fst_split_empty_iff)
next
  show "snd (split_joke s) = [] \<longleftrightarrow>
      (SPACE \<notin> set (drop (length s div 2) s) \<and> length s \<le> 2)
      \<or> (SPACE \<in> set (drop (length s div 2) s)
          \<and> SPACE \<notin> set (drop (length s div 2) (butlast s)))"
    by (rule snd_split_empty_iff)
next
  assume "3 \<le> length s \<and> last s \<noteq> SPACE"
  then show "fst (split_joke s) \<noteq> []"
    by (auto simp: fst_split_empty_iff)
next
  assume "3 \<le> length s \<and> last s \<noteq> SPACE"
  then show "snd (split_joke s) \<noteq> []"
    by (intro snd_split_nonempty) auto
next
  fix j assume "j \<in> set JOKES"
  then have "3 \<le> length j \<and> last j \<noteq> SPACE"
    using jokes_shape by blast
  then show "fst (split_joke j) \<noteq> []"
    by (auto simp: fst_split_empty_iff)
next
  fix j assume "j \<in> set JOKES"
  then have "3 \<le> length j" "last j \<noteq> SPACE"
    using jokes_shape by blast+
  then show "snd (split_joke j) \<noteq> []"
    by (rule snd_split_nonempty)
qed

theorem delta_texts_nonempty_witness:
  "fst (split_joke ''hello world'') \<noteq> [] \<and> snd (split_joke ''hello world'') \<noteq> []
   \<and> fst (split_joke (JOKES ! 0)) \<noteq> [] \<and> snd (split_joke (JOKES ! 0)) \<noteq> []"
proof -
  have a: "3 \<le> length ''hello world'' \<and> last ''hello world'' \<noteq> SPACE"
    by simp
  have b: "JOKES ! 0 \<in> set JOKES"
    by (simp add: JOKES_def)
  show ?thesis
    using delta_texts_nonempty [where s = "''hello world''"] a b
    by blast
qed

text \<open>
  C7, as the specification states it, fails: the content \<open>''a b ''\<close> is not empty and has
  whitespace before its midpoint (and after it), and its second delta text is empty.
\<close>

theorem second_delta_empty_despite_whitespace:
  "''a b '' \<noteq> []
   \<and> 1 < length ''a b '' div 2 \<and> is_whitespace (''a b '' ! 1)
   \<and> split_joke ''a b '' = (''a b '', [])
   \<and> snd (split_joke ''a b '') = []"
  by (simp add: split_joke_def str_find_def slice_to_def slice_from_def slice_bound_def
      is_whitespace_def Let_def)

end
